theory Spec2Isabelle
  imports Complex_Main "HOL-Library.Word" "HOL-Library.Sublist"
begin

section \<open>Python values and the library calls of baudrate.py\<close>

text \<open>
  The program is Python 3 (f-strings, \<^verbatim>\<open>sys.stderr.buffer\<close>). Two kinds of
  Python value meet in the detection loop: \<^verbatim>\<open>bytes\<close> objects and \<^verbatim>\<open>str\<close> objects.
  A \<^verbatim>\<open>bytes\<close> object is a sequence of 8-bit values, a \<^verbatim>\<open>str\<close> a sequence of
  code points. Python's \<^verbatim>\<open>==\<close> never identifies a \<^verbatim>\<open>bytes\<close> object with a
  \<^verbatim>\<open>str\<close> object, whatever they hold; the equality of the datatype below is
  exactly that comparison.
\<close>

datatype pyval = PyBytes "8 word list" | PyStr "nat list"

datatype exn = TypeError | IndexError | ValueError | AttributeError

text \<open>A \<^verbatim>\<open>str\<close> literal of the source, as its code points.\<close>

definition lit :: "string \<Rightarrow> nat list" where
  "lit s = map of_char s"

text \<open>\<^verbatim>\<open>chr(i)\<close>: the one-character \<^verbatim>\<open>str\<close> with code point \<open>i\<close>.\<close>

definition chr :: "nat \<Rightarrow> pyval" where
  "chr i = PyStr [i]"

text \<open>Truth value of an object in \<^verbatim>\<open>if byte:\<close>: a sequence is true when not empty.\<close>

definition truthy :: "pyval \<Rightarrow> bool" where
  "truthy v = (case v of PyBytes b \<Rightarrow> b \<noteq> [] | PyStr s \<Rightarrow> s \<noteq> [])"

text \<open>\<^verbatim>\<open>x in xs\<close> for a list \<open>xs\<close>: some element equals \<open>x\<close>.\<close>

definition in_list :: "pyval \<Rightarrow> pyval list \<Rightarrow> bool" where
  "in_list x xs = list_ex (\<lambda>y. x = y) xs"

text \<open>
  \<^verbatim>\<open>x in s\<close> for a \<^verbatim>\<open>str\<close> \<open>s\<close>: substring test when \<open>x\<close> is a \<^verbatim>\<open>str\<close>,
  \<^verbatim>\<open>TypeError\<close> when \<open>x\<close> is a \<^verbatim>\<open>bytes\<close> object.
\<close>

definition in_str :: "pyval \<Rightarrow> nat list \<Rightarrow> exn + bool" where
  "in_str x s = (case x of PyStr t \<Rightarrow> Inr (sublist t s) | PyBytes b \<Rightarrow> Inl TypeError)"

text \<open>
  \<^verbatim>\<open>isspace()\<close>: the object is not empty and holds whitespace only. For \<^verbatim>\<open>str\<close>
  the whitespace code points are Unicode's, for \<^verbatim>\<open>bytes\<close> the six of ASCII.
\<close>

definition unicode_space :: "nat \<Rightarrow> bool" where
  "unicode_space c =
     ((9 \<le> c \<and> c \<le> 13) \<or> (28 \<le> c \<and> c \<le> 32) \<or> c = 133 \<or> c = 160 \<or> c = 5760
      \<or> (8192 \<le> c \<and> c \<le> 8202) \<or> c = 8232 \<or> c = 8233 \<or> c = 8239 \<or> c = 8287
      \<or> c = 12288)"

definition ascii_space :: "8 word \<Rightarrow> bool" where
  "ascii_space w = ((9 \<le> unat w \<and> unat w \<le> 13) \<or> unat w = 32)"

definition isspace :: "pyval \<Rightarrow> bool" where
  "isspace v =
     (case v of PyStr s \<Rightarrow> s \<noteq> [] \<and> list_all unicode_space s
      | PyBytes b \<Rightarrow> b \<noteq> [] \<and> list_all ascii_space b)"

text \<open>
  \<^verbatim>\<open>sys.stderr.buffer.write(x)\<close>: the binary stream takes a \<^verbatim>\<open>bytes\<close> object and
  raises \<^verbatim>\<open>TypeError\<close> on a \<^verbatim>\<open>str\<close>. What is written is not part of the state.
\<close>

definition buffer_write :: "pyval \<Rightarrow> exn + unit" where
  "buffer_write x = (case x of PyBytes b \<Rightarrow> Inr () | PyStr s \<Rightarrow> Inl TypeError)"

text \<open>
  \<^verbatim>\<open>xs[i]\<close> on a list: position \<open>i\<close> from the front, or for a negative \<open>i\<close>
  from the back, and \<^verbatim>\<open>IndexError\<close> beyond either end.
\<close>

definition subscript :: "'a list \<Rightarrow> int \<Rightarrow> exn + 'a" where
  "subscript xs i =
     (if 0 \<le> i \<and> i < int (length xs) then Inr (xs ! nat i)
      else if - int (length xs) \<le> i \<and> i < 0 then Inr (xs ! nat (int (length xs) + i))
      else Inl IndexError)"

text \<open>
  \<^verbatim>\<open>int(s)\<close> on a \<^verbatim>\<open>str\<close>. Modelled on unsigned decimal literals, the only
  form \<^verbatim>\<open>BAUDRATES\<close> holds: a string that is not one is answered with
  \<^verbatim>\<open>ValueError\<close> (Python accepts a few more spellings, such as a sign or blanks
  around the digits; no theorem below is about those).
\<close>

definition is_digit :: "char \<Rightarrow> bool" where
  "is_digit c = (48 \<le> (of_char c :: nat) \<and> (of_char c :: nat) \<le> 57)"

fun decimal :: "int \<Rightarrow> string \<Rightarrow> int" where
  "decimal acc [] = acc"
| "decimal acc (c # cs) = decimal (acc * 10 + (int (of_char c) - 48)) cs"

definition py_int :: "string \<Rightarrow> exn + int" where
  "py_int s = (if s \<noteq> [] \<and> list_all is_digit s then Inr (decimal 0 s) else Inl ValueError)"

section \<open>The detector object\<close>

text \<open>
  The \<^verbatim>\<open>serial.Serial\<close> object, as far as the program uses it: the baud rate
  it is set to and how often it was flushed. A fresh port of the library runs at 9600.
\<close>

record serial_port =
  baudrate :: int
  flushes :: nat

text \<open>
  The attributes of \<^verbatim>\<open>BaudrateDetector\<close>. \<open>thread\<close> tells whether
  \<^verbatim>\<open>self.thread\<close>, the keypress thread of manual mode, has been started and is
  still running.
\<close>

record detector =
  port :: string
  threshold :: int
  timeout :: int
  name :: "string option"
  autoDetect :: bool
  verbose :: bool
  index :: int
  validCharacters :: "pyval list"
  ctlc :: bool
  serial :: "serial_port option"
  thread :: bool

definition BAUDRATES :: "string list" where
  "BAUDRATES =
    [''110'', ''150'', ''300'', ''600'', ''800'', ''1200'', ''1600'', ''1800'', ''2400'',
     ''2604'', ''3200'', ''4800'', ''5208'', ''6400'', ''9600'', ''9606'', ''10417'',
     ''12800'', ''14400'', ''15625'', ''14406'', ''19200'', ''19211'', ''25600'', ''26042'',
     ''28800'', ''31250'', ''38400'', ''38422'', ''52083'', ''57600'', ''57692'', ''78600'',
     ''104167'', ''115200'', ''115384'', ''156250'', ''230400'', ''230769'', ''256000'',
     ''312500'', ''460800'', ''461538'', ''921600'', ''923076'']"

text \<open>\<^verbatim>\<open>_generateCharList\<close>: the one-character strings of code points 32 to 126.\<close>

definition generateCharList :: "detector \<Rightarrow> detector" where
  "generateCharList d = d\<lparr>validCharacters := map chr [32..<127]\<rparr>"

text \<open>\<^verbatim>\<open>__init__\<close>.\<close>

definition init :: "string \<Rightarrow> int \<Rightarrow> int \<Rightarrow> string option \<Rightarrow> bool \<Rightarrow> bool \<Rightarrow> detector" where
  "init p thr tmo nm auto verb =
     generateCharList
       \<lparr>port = p, threshold = thr, timeout = tmo, name = nm, autoDetect = auto,
        verbose = verb, index = 0, validCharacters = [], ctlc = False, serial = None,
        thread = False\<rparr>"

text \<open>
  \<^verbatim>\<open>openSerialPort\<close>, when the library opens the port. (When it does not, the
  program prints the error and exits; nothing below runs.)
\<close>

definition openSerialPort :: "detector \<Rightarrow> detector" where
  "openSerialPort d = d\<lparr>serial := Some \<lparr>baudrate = 9600, flushes = 0\<rparr>\<rparr>"

text \<open>
  \<^verbatim>\<open>nextBaudrate\<close>. The list \<^verbatim>\<open>self.BAUDRATES\<close> is a parameter, so that the
  wrap-around can be stated for every list. An exception leaves the object as it was
  when raised: the index is already stepped, the port flushed once.
\<close>

definition nextBaudrate :: "string list \<Rightarrow> int \<Rightarrow> detector \<Rightarrow> (exn \<times> detector) + detector" where
  "nextBaudrate rates updn d =
     (let i = index d + updn;
          i' = (if i \<ge> int (length rates) then 0
                else if i < 0 then int (length rates) - 1 else i);
          d1 = d\<lparr>index := i'\<rparr>
      in case serial d1 of
           None \<Rightarrow> Inl (AttributeError, d1)
         | Some s \<Rightarrow>
             (let d2 = d1\<lparr>serial := Some (s\<lparr>flushes := flushes s + 1\<rparr>)\<rparr>
              in case subscript rates i' of
                   Inl e \<Rightarrow> Inl (e, d2)
                 | Inr r \<Rightarrow>
                     (case py_int r of
                        Inl e \<Rightarrow> Inl (e, d2)
                      | Inr b \<Rightarrow>
                          Inr (d1\<lparr>serial := Some (s\<lparr>baudrate := b, flushes := flushes s + 2\<rparr>)\<rparr>))))"

text \<open>A sequence of calls of \<^verbatim>\<open>nextBaudrate\<close>, stopped by the first exception.\<close>

fun advances :: "string list \<Rightarrow> int list \<Rightarrow> detector \<Rightarrow> (exn \<times> detector) + detector" where
  "advances rates [] d = Inr d"
| "advances rates (u # us) d =
     (case nextBaudrate rates u d of Inl x \<Rightarrow> Inl x | Inr d' \<Rightarrow> advances rates us d')"

text \<open>A list of rates the program can run on: every entry is a decimal literal.\<close>

definition numeric :: "string list \<Rightarrow> bool" where
  "numeric rates = list_all (\<lambda>r. r \<noteq> [] \<and> list_all is_digit r) rates"

section \<open>The detection loop\<close>

text \<open>The local variables of \<^verbatim>\<open>detectBaudrate\<close>.\<close>

record loopvars =
  count :: int
  whitespace :: int
  punctuation :: int
  vowels :: int
  startTime :: real
  timedOut :: bool
  clearCounters :: bool

text \<open>
  What one pass of the loop takes from outside: the keys the operator typed since the
  last pass (manual mode only; each key is the \<^verbatim>\<open>str\<close> the raw input returned),
  the clock at line 100, the result of \<^verbatim>\<open>self.serial.read(1)\<close> (an empty object when
  the read timed out) and the clock at line 121. Clock values are real numbers; 0 is the
  source's mark for an unset timer. The serial library hands the read bytes over as a
  \<^verbatim>\<open>bytes\<close> object; the type of \<open>rx\<close> admits a \<^verbatim>\<open>str\<close> as well, so that the
  model says what lines 105 to 117 do with either.
\<close>

record tick =
  keys :: "nat list list"
  now_top :: real
  rx :: pyval
  now_chk :: real

text \<open>
  Control after a part of the loop body: on to the next statement, out of the loop by
  \<^verbatim>\<open>break\<close>, or out of the method by an exception. A pass as a whole goes on to the
  next pass, leaves the loop (\<open>Success\<close> names the \<^verbatim>\<open>break\<close> of line 120,
  \<open>Cancelled\<close> the one of line 140), or raises.
\<close>

datatype 'a flow = Next 'a | Break 'a | Raise exn

datatype exit = Success | Cancelled

datatype step = Continue detector loopvars | Exit exit detector loopvars | Raised exn

text \<open>Lines 86 to 92.\<close>

definition start :: loopvars where
  "start = \<lparr>count = 0, whitespace = 0, punctuation = 0, vowels = 0, startTime = 0,
            timedOut = False, clearCounters = False\<rparr>"

text \<open>Lines 99 and 100.\<close>

definition arm :: "tick \<Rightarrow> loopvars \<Rightarrow> loopvars" where
  "arm tk v = (if startTime v = 0 then v\<lparr>startTime := now_top tk\<rparr> else v)"

text \<open>Lines 105 to 115: the byte is counted, or the counters are marked for reset.\<close>

definition classify :: "detector \<Rightarrow> pyval \<Rightarrow> loopvars \<Rightarrow> exn + loopvars" where
  "classify d byte v =
     (if autoDetect d \<and> in_list byte (validCharacters d) then
        (if isspace byte then
           Inr (v\<lparr>whitespace := whitespace v + 1, count := count v + 1\<rparr>)
         else
           (case in_str byte (lit ''.,:;?!'') of
              Inl e \<Rightarrow> Inl e
            | Inr True \<Rightarrow> Inr (v\<lparr>punctuation := punctuation v + 1, count := count v + 1\<rparr>)
            | Inr False \<Rightarrow>
                (case in_str byte (lit ''aeiouAEIOU'') of
                   Inl e \<Rightarrow> Inl e
                 | Inr True \<Rightarrow> Inr (v\<lparr>vowels := vowels v + 1, count := count v + 1\<rparr>)
                 | Inr False \<Rightarrow> Inr (v\<lparr>count := count v + 1\<rparr>))))
      else Inr (v\<lparr>clearCounters := True\<rparr>))"

text \<open>The test of line 119.\<close>

definition success :: "detector \<Rightarrow> loopvars \<Rightarrow> bool" where
  "success d v =
     (count v \<ge> threshold d \<and> whitespace v > 0 \<and> punctuation v > 0 \<and> vowels v > 0)"

text \<open>Lines 99 to 124. \<open>Break\<close> is the \<^verbatim>\<open>break\<close> of line 120.\<close>

definition read_phase :: "detector \<Rightarrow> tick \<Rightarrow> loopvars \<Rightarrow> loopvars flow" where
  "read_phase d tk v =
     (let v1 = arm tk v in
      case serial d of
        None \<Rightarrow> Raise AttributeError
      | Some s \<Rightarrow>
          (let byte = rx tk in
           if truthy byte then
             (case classify d byte v1 of
                Inl e \<Rightarrow> Raise e
              | Inr v2 \<Rightarrow>
                  (case buffer_write byte of
                     Inl e \<Rightarrow> Raise e
                   | Inr u \<Rightarrow>
                       if success d v2 then Break v2
                       else if now_chk tk - startTime v2 \<ge> real_of_int (timeout d)
                       then Next (v2\<lparr>timedOut := True\<rparr>)
                       else Next v2))
           else Next (v1\<lparr>timedOut := True\<rparr>)))"

text \<open>Lines 126 to 130.\<close>

definition rate_phase :: "string list \<Rightarrow> detector \<Rightarrow> loopvars \<Rightarrow> exn + detector \<times> loopvars" where
  "rate_phase rates d v =
     (if timedOut v \<and> autoDetect d then
        (case nextBaudrate rates (- 1) d of
           Inl x \<Rightarrow> Inl (fst x)
         | Inr d' \<Rightarrow> Inr (d', v\<lparr>startTime := 0, clearCounters := True, timedOut := False\<rparr>))
      else Inr (d, v))"

text \<open>Lines 132 to 137.\<close>

definition clear_phase :: "loopvars \<Rightarrow> loopvars" where
  "clear_phase v =
     (if clearCounters v then
        v\<lparr>whitespace := 0, punctuation := 0, vowels := 0, count := 0, clearCounters := False\<rparr>
      else v)"

text \<open>One pass of the \<^verbatim>\<open>while True\<close> loop, lines 99 to 140.\<close>

definition iteration :: "string list \<Rightarrow> tick \<Rightarrow> detector \<Rightarrow> loopvars \<Rightarrow> step" where
  "iteration rates tk d v =
     (case read_phase d tk v of
        Raise e \<Rightarrow> Raised e
      | Break v1 \<Rightarrow> Exit Success d v1
      | Next v1 \<Rightarrow>
          (case rate_phase rates d v1 of
             Inl e \<Rightarrow> Raised e
           | Inr (d', v2) \<Rightarrow>
               if ctlc d' then Exit Cancelled d' (clear_phase v2)
               else Continue d' (clear_phase v2)))"

section \<open>The keypress thread\<close>

text \<open>The body of the loop of \<^verbatim>\<open>handleKeypress\<close>, for the key \<open>c\<close> read.\<close>

definition handleKey :: "string list \<Rightarrow> nat list \<Rightarrow> detector \<Rightarrow> (exn \<times> detector) + detector" where
  "handleKey rates c d =
     (if sublist c (lit ''uUAdD'') then nextBaudrate rates 1 d
      else if c = [3] then Inr (d\<lparr>ctlc := True\<rparr>)
      else Inr d)"

text \<open>
  \<^verbatim>\<open>handleKeypress\<close> over the keys typed so far; with no key left the thread is
  blocked reading the next one.
\<close>

fun handleKeypress :: "string list \<Rightarrow> nat list list \<Rightarrow> detector \<Rightarrow> (exn \<times> detector) + detector" where
  "handleKeypress rates [] d = Inr d"
| "handleKeypress rates (c # cs) d =
     (if ctlc d then Inr d
      else case handleKey rates c d of
             Inl x \<Rightarrow> Inl x
           | Inr d' \<Rightarrow> handleKeypress rates cs d')"

text \<open>
  What the thread has done to the object when the main loop looks next. In manual mode
  the main loop reads \<^verbatim>\<open>self.ctlc\<close> at line 139 only and writes neither it nor the
  index, so the thread's steps are placed at the head of the pass. An exception in the
  thread ends the thread, not the program.
\<close>

definition keypresses :: "string list \<Rightarrow> nat list list \<Rightarrow> detector \<Rightarrow> detector" where
  "keypresses rates ks d =
     (if thread d then
        (case handleKeypress rates ks d of
           Inl x \<Rightarrow> (snd x)\<lparr>thread := False\<rparr>
         | Inr d' \<Rightarrow> d'\<lparr>thread := \<not> ctlc d'\<rparr>)
      else d)"

text \<open>
  The loop over the passes the input allows. \<open>Continue\<close> as the result says that the
  input is used up and the loop is still running.
\<close>

fun detect :: "string list \<Rightarrow> tick list \<Rightarrow> detector \<Rightarrow> loopvars \<Rightarrow> step" where
  "detect rates [] d v = Continue d v"
| "detect rates (tk # tks) d v =
     (case iteration rates tk (keypresses rates (keys tk) d) v of
        Continue d' v' \<Rightarrow> detect rates tks d' v'
      | Exit k d' v' \<Rightarrow> Exit k d' v'
      | Raised e \<Rightarrow> Raised e)"

text \<open>
  Line 142, reached from both \<^verbatim>\<open>break\<close>s: what the call returns or raises once
  the loop has ended, and \<open>None\<close> while it runs. The way the loop was left is not
  part of the value.
\<close>

fun returned :: "string list \<Rightarrow> step \<Rightarrow> (exn + string) option" where
  "returned rates (Continue d v) = None"
| "returned rates (Exit k d v) = Some (subscript rates (index d))"
| "returned rates (Raised e) = Some (Inl e)"

text \<open>
  \<^verbatim>\<open>detectBaudrate\<close>: the locals of lines 86 to 92, the thread of manual mode
  (lines 94 to 96), the loop, the \<^verbatim>\<open>return\<close>.
\<close>

definition detectBaudrate :: "string list \<Rightarrow> tick list \<Rightarrow> detector \<Rightarrow> (exn + string) option" where
  "detectBaudrate rates tks d =
     returned rates (detect rates tks (if autoDetect d then d else d\<lparr>thread := True\<rparr>) start)"

section \<open>The configuration file\<close>

definition nl :: string where
  "nl = [CHR 0x0A]"

text \<open>The text built by lines 154 to 162, for the port \<open>p\<close> and the rate \<open>r\<close>.\<close>

definition config_text :: "string \<Rightarrow> string \<Rightarrow> string" where
  "config_text p r =
     replicate 72 (CHR ''#'') @ nl
     @ ''# Minicom configuration file - use '' @ [CHR 0x22] @ ''minicom -s'' @ [CHR 0x22]
     @ '' to change parameters.'' @ nl
     @ ''pu port             '' @ p @ nl
     @ ''pu baudrate         '' @ r @ nl
     @ ''pu bits             8'' @ nl
     @ ''pu parity           N'' @ nl
     @ ''pu stopbits         1'' @ nl
     @ ''pu rtscts           No'' @ nl
     @ replicate 72 (CHR ''#'') @ nl"

text \<open>
  \<^verbatim>\<open>minicomConfig\<close>. The file system is the parameter \<open>fs\<close>: writing a text to a path
  succeeds (\<open>None\<close>) or raises with a message. The result is the pair the method
  returns, with the list of writes it attempted.
\<close>

definition minicomConfig ::
  "string list \<Rightarrow> (string \<Rightarrow> string \<Rightarrow> string option) \<Rightarrow> detector
     \<Rightarrow> exn + (bool \<times> string) \<times> (string \<times> string) list" where
  "minicomConfig rates fs d =
     (case subscript rates (index d) of
        Inl e \<Rightarrow> Inl e
      | Inr r \<Rightarrow>
          (let config = config_text (port d) r in
           case name d of
             None \<Rightarrow> Inr ((False, ''Configuration name not provided.''), [])
           | Some n \<Rightarrow>
               if n \<noteq> [] then
                 (let path = ''/etc/minicom/minirc.'' @ n in
                  case fs path config of
                    None \<Rightarrow> Inr ((True, config), [(path, config)])
                  | Some msg \<Rightarrow>
                      Inr ((False, ''Error saving minicom config file: '' @ msg),
                           [(path, config)]))
               else Inr ((False, ''Configuration name not provided.''), [])))"

section \<open>Notions of the specification\<close>

text \<open>
  The specification's printable range: the object read is one byte, or one character,
  of value 32 to 126.
\<close>

definition printable :: "pyval \<Rightarrow> bool" where
  "printable x =
     (case x of
        PyBytes b \<Rightarrow> (case b of [w] \<Rightarrow> 32 \<le> unat w \<and> unat w \<le> 126 | _ \<Rightarrow> False)
      | PyStr s \<Rightarrow> (case s of [c] \<Rightarrow> 32 \<le> c \<and> c \<le> 126 | _ \<Rightarrow> False))"

text \<open>
  The specification's invariant of the four counters: none is negative and no sub-tag
  counter exceeds the total.
\<close>

definition consistent :: "loopvars \<Rightarrow> bool" where
  "consistent v =
     (0 \<le> whitespace v \<and> 0 \<le> punctuation v \<and> 0 \<le> vowels v \<and> 0 \<le> count v \<and>
      whitespace v \<le> count v \<and> punctuation v \<le> count v \<and> vowels v \<le> count v)"

text \<open>The object read is a \<^verbatim>\<open>bytes\<close> object, as the serial library returns it.\<close>

definition is_bytes :: "pyval \<Rightarrow> bool" where
  "is_bytes x = (case x of PyBytes b \<Rightarrow> True | PyStr s \<Rightarrow> False)"

text \<open>All four counters are 0.\<close>

definition zeroed :: "loopvars \<Rightarrow> bool" where
  "zeroed v = (count v = 0 \<and> whitespace v = 0 \<and> punctuation v = 0 \<and> vowels v = 0)"

section \<open>Objects for the examples\<close>

text \<open>
  The detector of \<^verbatim>\<open>main\<close> with the default arguments, in auto-detect mode and in
  manual mode, after \<^verbatim>\<open>openSerialPort\<close>.
\<close>

definition auto_detector :: detector where
  "auto_detector = openSerialPort (init ''/dev/ttyUSB0'' 25 5 None True True)"

definition manual_detector :: detector where
  "manual_detector = openSerialPort (init ''/dev/ttyUSB0'' 25 5 None False True)"

text \<open>
  Passes of the loop at clock 100: one whose read times out, one whose read times out
  after the operator typed \<^verbatim>\<open>u\<close> and Ctrl-C, and one that reads the byte \<open>w\<close>.
\<close>

definition idle :: tick where
  "idle = \<lparr>keys = [], now_top = 100, rx = PyBytes [], now_chk = 100\<rparr>"

definition typed :: tick where
  "typed = \<lparr>keys = [[117], [3]], now_top = 100, rx = PyBytes [], now_chk = 100\<rparr>"

definition at_100 :: "8 word \<Rightarrow> tick" where
  "at_100 w = \<lparr>keys = [], now_top = 100, rx = PyBytes [w], now_chk = 100\<rparr>"

text \<open>
  The text of the specification's example, up to its full stop, arriving byte by byte
  within one second: 26 bytes, all of them in 32 to 126, with blanks, punctuation and
  vowels among them.
\<close>

definition hello :: "tick list" where
  "hello = map (\<lambda>c. at_100 (of_char c)) ''Hello, world! Testing 123.''"

text \<open>
  Values of the locals: the initial ones with the timer set at clock 100, and counters
  marked for reset.
\<close>

definition armed :: loopvars where
  "armed = start\<lparr>startTime := 100\<rparr>"

definition seen :: loopvars where
  "seen = start\<lparr>count := 7, whitespace := 1, vowels := 2, clearCounters := True\<rparr>"

section \<open>The rate cycler\<close>

lemma subscript_in_range:
  "0 \<le> i \<Longrightarrow> i < int (length xs) \<Longrightarrow> subscript xs i = Inr (xs ! nat i)"
  by (simp add: subscript_def)

lemma numeric_py_int:
  "numeric rates \<Longrightarrow> r \<in> set rates \<Longrightarrow> py_int r = Inr (decimal 0 r)"
  by (auto simp: numeric_def py_int_def list_all_iff)

lemma numeric_BAUDRATES: "numeric BAUDRATES"
  by (simp add: numeric_def BAUDRATES_def is_digit_def)

lemma length_BAUDRATES: "length BAUDRATES = 45"
  by (simp add: BAUDRATES_def)

lemma auto_detector_fields:
  "serial auto_detector = Some \<lparr>baudrate = 9600, flushes = 0\<rparr>"
  "index auto_detector = 0" "autoDetect auto_detector" "\<not> ctlc auto_detector"
  "threshold auto_detector = 25" "timeout auto_detector = 5"
  "validCharacters auto_detector = map chr [32..<127]"
  by (simp_all add: auto_detector_def openSerialPort_def init_def generateCharList_def)

lemma manual_detector_fields:
  "serial manual_detector = Some \<lparr>baudrate = 9600, flushes = 0\<rparr>"
  "index manual_detector = 0" "\<not> autoDetect manual_detector" "\<not> ctlc manual_detector"
  "threshold manual_detector = 25" "timeout manual_detector = 5"
  "validCharacters manual_detector = map chr [32..<127]"
  by (simp_all add: manual_detector_def openSerialPort_def init_def generateCharList_def)

text \<open>
  With a non-empty list of decimal literals and an open port, \<^verbatim>\<open>nextBaudrate\<close>
  returns, whatever the step and the index before, and the index after it is the one
  its two tests select. Mode and termination flag are not touched.
\<close>

lemma nextBaudrate_ok:
  assumes "numeric rates" and "rates \<noteq> []" and "serial d = Some s"
  shows "\<exists>d'. nextBaudrate rates updn d = Inr d' \<and>
           index d' = (if index d + updn \<ge> int (length rates) then 0
                       else if index d + updn < 0 then int (length rates) - 1
                       else index d + updn) \<and>
           serial d' \<noteq> None \<and> ctlc d' = ctlc d \<and> autoDetect d' = autoDetect d"
proof -
  define i where "i = (if index d + updn \<ge> int (length rates) then 0
                       else if index d + updn < 0 then int (length rates) - 1
                       else index d + updn)"
  have rng: "0 \<le> i" "i < int (length rates)"
    using assms(2) by (auto simp: i_def)
  then have sub: "subscript rates i = Inr (rates ! nat i)"
    by (rule subscript_in_range)
  have "rates ! nat i \<in> set rates"
    using rng by simp
  then have "py_int (rates ! nat i) = Inr (decimal 0 (rates ! nat i))"
    using assms(1) by (rule numeric_py_int[rotated])
  with sub assms(3) show ?thesis
    unfolding nextBaudrate_def Let_def i_def[symmetric] by simp
qed

text \<open>
  Claim C4. For every list of rates of length at least 1 (of decimal literals, on an open
  port) and every index in range, \<^verbatim>\<open>nextBaudrate(+1)\<close> at the last index gives
  index 0, \<^verbatim>\<open>nextBaudrate(-1)\<close> at index 0 gives the last index, at every other
  index a step of +1 or -1 gives the index plus the step, and the call returns.
\<close>

theorem advance_wraps:
  assumes "numeric rates" and "1 \<le> length rates"
    and "0 \<le> index d" and "index d < int (length rates)"
    and "serial d = Some s" and "updn = 1 \<or> updn = - 1"
  shows "\<exists>d'. nextBaudrate rates updn d = Inr d' \<and>
           index d' = (if updn = 1 \<and> index d = int (length rates) - 1 then 0
                       else if updn = - 1 \<and> index d = 0 then int (length rates) - 1
                       else index d + updn)"
proof -
  from assms(2) have ne: "rates \<noteq> []" by auto
  from nextBaudrate_ok[OF assms(1) ne assms(5), of updn]
  obtain d' where ok: "nextBaudrate rates updn d = Inr d'"
    and ix: "index d' = (if index d + updn \<ge> int (length rates) then 0
                       else if index d + updn < 0 then int (length rates) - 1
                       else index d + updn)"
    by blast
  from assms(6) show ?thesis
  proof
    assume "updn = 1"
    with ok ix assms(3,4) show ?thesis by auto
  next
    assume "updn = - 1"
    with ok ix assms(3,4) show ?thesis by auto
  qed
qed

text \<open>On the program's own list, a step back from index 0 lands on index 44.\<close>

theorem advance_wraps_witness:
  "\<exists>d'. nextBaudrate BAUDRATES (- 1) auto_detector = Inr d' \<and> index d' = 44"
proof -
  have "1 \<le> length BAUDRATES" "0 \<le> index auto_detector"
     "index auto_detector < int (length BAUDRATES)" "(- 1 :: int) = 1 \<or> (- 1 :: int) = - 1"
    by (simp_all add: length_BAUDRATES auto_detector_fields)
  from advance_wraps[OF numeric_BAUDRATES this(1,2,3) auto_detector_fields(1) this(4)]
  show ?thesis
    by (simp add: auto_detector_fields length_BAUDRATES)
qed

lemma advances_in_range:
  assumes "numeric rates" and "rates \<noteq> []"
  shows "serial d \<noteq> None \<Longrightarrow> 0 \<le> index d \<Longrightarrow> index d < int (length rates) \<Longrightarrow>
         \<exists>d'. advances rates us d = Inr d' \<and> 0 \<le> index d' \<and> index d' < int (length rates)"
proof (induction us arbitrary: d)
  case Nil
  then show ?case by simp
next
  case (Cons u us)
  from Cons.prems(1) obtain s where s: "serial d = Some s" by auto
  from nextBaudrate_ok[OF assms s, of u]
  obtain d1 where ok: "nextBaudrate rates u d = Inr d1"
    and ix: "index d1 = (if index d + u \<ge> int (length rates) then 0
                       else if index d + u < 0 then int (length rates) - 1
                       else index d + u)"
    and s1: "serial d1 \<noteq> None"
    by blast
  from ix assms(2) have "0 \<le> index d1" "index d1 < int (length rates)"
    by (auto split: if_splits)
  from Cons.IH[OF s1 this] ok show ?case by simp
qed

text \<open>
  Claim C8. Starting from index 0, after each call of a sequence of
  \<^verbatim>\<open>nextBaudrate\<close> calls (the first \<open>k\<close> of the sequence, for every \<open>k\<close>) the index
  is at least 0 and below the length of the list. The steps need not even be +1 or -1:
  the two tests of \<^verbatim>\<open>nextBaudrate\<close> bring every sum back into range.
\<close>

theorem index_stays_in_range:
  assumes "numeric rates" and "1 \<le> length rates" and "serial d = Some s"
    and "index d = 0"
  shows "\<exists>d'. advances rates (take k us) d = Inr d' \<and>
           0 \<le> index d' \<and> index d' < int (length rates)"
proof -
  from assms(2) have ne: "rates \<noteq> []" by auto
  from assms(3) have "serial d \<noteq> None" by simp
  moreover from assms(2,4) have "0 \<le> index d" "index d < int (length rates)" by auto
  ultimately show ?thesis by (rule advances_in_range[OF assms(1) ne])
qed

text \<open>Three steps back and one forward from index 0 on the program's list: index 43.\<close>

theorem index_stays_in_range_witness:
  "\<exists>d'. advances BAUDRATES (take 4 [- 1, - 1, - 1, 1, 1]) auto_detector = Inr d' \<and>
        0 \<le> index d' \<and> index d' < 45"
proof -
  have "1 \<le> length BAUDRATES"
    by (simp add: length_BAUDRATES)
  from index_stays_in_range[where k = 4 and us = "[- 1, - 1, - 1, 1, 1]",
      OF numeric_BAUDRATES this auto_detector_fields(1,2)]
  show ?thesis
    by (simp add: length_BAUDRATES)
qed

section \<open>The classifier\<close>

lemma auto_detector_rest: "\<not> thread auto_detector" "name auto_detector = None"
  by (simp_all add: auto_detector_def openSerialPort_def init_def generateCharList_def)

lemma manual_detector_rest: "\<not> thread manual_detector"
  by (simp add: manual_detector_def openSerialPort_def init_def generateCharList_def)

lemma idle_fields:
  "keys idle = []" "now_top idle = 100" "rx idle = PyBytes []" "now_chk idle = 100"
  by (simp_all add: idle_def)

lemma typed_fields:
  "keys typed = [[117], [3]]" "now_top typed = 100" "rx typed = PyBytes []"
  "now_chk typed = 100"
  by (simp_all add: typed_def)

lemma in_list_set: "in_list x xs = (x \<in> set xs)"
  by (auto simp: in_list_def list_ex_iff)

text \<open>
  Membership in a list of one-character strings: the object is one of those strings.
  A \<^verbatim>\<open>bytes\<close> object never is.
\<close>

lemma in_chars: "in_list x (map chr cs) = (\<exists>c \<in> set cs. x = PyStr [c])"
  by (auto simp: in_list_set chr_def)

lemma bytes_not_in_chars: "\<not> in_list (PyBytes b) (map chr cs)"
  by (simp add: in_chars)

lemma in_chars_printable: "in_list x (map chr [32..<127]) \<Longrightarrow> printable x"
  unfolding in_chars set_upt by (auto simp: printable_def)

lemma in_auto_valid:
  "in_list x (validCharacters auto_detector) = (\<exists>c\<in>{32..<127}. x = PyStr [c])"
  unfolding auto_detector_fields in_chars set_upt ..

lemma sublist_single: "sublist [c] xs = (c \<in> set xs)"
  by (induction xs) (auto simp: sublist_Cons_right)

lemma classify_bytes:
  "validCharacters d = map chr cs \<Longrightarrow>
   classify d (PyBytes b) v = Inr (v\<lparr>clearCounters := True\<rparr>)"
  by (simp add: classify_def bytes_not_in_chars)

lemma classify_manual:
  "\<not> autoDetect d \<Longrightarrow> classify d x v = Inr (v\<lparr>clearCounters := True\<rparr>)"
  by (simp add: classify_def)

text \<open>
  What lines 105 to 113 do with the one-character string \<^verbatim>\<open>'a'\<close> in auto-detect
  mode: it is in the list, it is a vowel, and it is counted.
\<close>

lemma classify_auto_a:
  "classify auto_detector (PyStr [97]) v
     = Inr (v\<lparr>vowels := vowels v + 1, count := count v + 1\<rparr>)"
  by (simp add: classify_def in_auto_valid auto_detector_fields(3) isspace_def
      unicode_space_def in_str_def lit_def sublist_single)

text \<open>
  Claim C2, at the input where the code leaves it. In auto-detect mode the read returns
  the byte \<^verbatim>\<open>b'a'\<close> (0x61, inside 32 to 126). The list \<^verbatim>\<open>validCharacters\<close> holds
  \<^verbatim>\<open>str\<close> objects, \<^verbatim>\<open>serial.read\<close> returns a \<^verbatim>\<open>bytes\<close> object, and the two
  never compare equal: the test of line 105 fails, nothing is counted and the counters
  are marked for reset. Had the object read been the \<^verbatim>\<open>str\<close> \<^verbatim>\<open>'a'\<close>, it would be
  counted and line 117, which writes the same object to a binary stream, would raise
  \<^verbatim>\<open>TypeError\<close> before the test of line 119.
\<close>

theorem printable_byte_not_counted:
  "classify auto_detector (PyBytes [0x61]) start = Inr (start\<lparr>clearCounters := True\<rparr>) \<and>
   read_phase auto_detector \<lparr>keys = [], now_top = 100, rx = PyStr [97], now_chk = 100\<rparr> start
     = Raise TypeError"
proof
  show "classify auto_detector (PyBytes [0x61]) start = Inr (start\<lparr>clearCounters := True\<rparr>)"
    by (rule classify_bytes[OF auto_detector_fields(7)])
  show "read_phase auto_detector \<lparr>keys = [], now_top = 100, rx = PyStr [97], now_chk = 100\<rparr>
          start = Raise TypeError"
    by (simp add: read_phase_def auto_detector_fields(1) truthy_def classify_auto_a
        buffer_write_def)
qed

text \<open>
  Claim C7 fails as stated: in manual mode the byte \<^verbatim>\<open>a\<close>, inside 32 to 126, is not
  counted, whether the object read is a \<^verbatim>\<open>bytes\<close> or a \<^verbatim>\<open>str\<close> object. The guard
  \<^verbatim>\<open>self.autoDetect and\<close> of line 105 sends every byte of manual mode to line 115.
\<close>

theorem manual_mode_counts_nothing:
  "printable (PyBytes [0x61]) \<and> printable (PyStr [97]) \<and>
   classify manual_detector (PyBytes [0x61]) start = Inr (start\<lparr>clearCounters := True\<rparr>) \<and>
   classify manual_detector (PyStr [97]) start = Inr (start\<lparr>clearCounters := True\<rparr>) \<and>
   count (start\<lparr>clearCounters := True\<rparr>) = count start"
  by (simp add: classify_manual manual_detector_fields(3) printable_def)

text \<open>
  Claim C7, amended. On a pass in which a byte was read, in manual mode the byte is not
  counted and the counters are marked for reset, whatever the byte; in either mode a byte
  outside 32 to 126 is not counted and the counters are marked for reset. No counter
  changes in lines 105 to 115 then.
\<close>

theorem unqualified_byte_marks_reset:
  assumes "validCharacters d = map chr [32..<127]"
    and "\<not> autoDetect d \<or> \<not> printable x"
  shows "classify d x v = Inr (v\<lparr>clearCounters := True\<rparr>)"
  using assms in_chars_printable[of x] by (auto simp: classify_def)

text \<open>The byte \<^verbatim>\<open>H\<close> in manual mode, the byte 0xFF in auto-detect mode.\<close>

theorem unqualified_byte_marks_reset_witness:
  "classify manual_detector (PyBytes [0x48]) start = Inr (start\<lparr>clearCounters := True\<rparr>) \<and>
   classify auto_detector (PyBytes [0xFF]) start = Inr (start\<lparr>clearCounters := True\<rparr>)"
proof -
  have "\<not> autoDetect manual_detector \<or> \<not> printable (PyBytes [0x48])"
    by (simp add: manual_detector_fields(3))
  note m = unqualified_byte_marks_reset[OF manual_detector_fields(7) this]
  have "\<not> autoDetect auto_detector \<or> \<not> printable (PyBytes [0xFF])"
    by (simp add: printable_def)
  note a = unqualified_byte_marks_reset[OF auto_detector_fields(7) this]
  from m a show ?thesis by simp
qed

section \<open>The success exit\<close>

text \<open>A pass leaves the loop at line 120 exactly when a byte was read, classified and
  echoed without an exception, and the counters then meet the test of line 119.\<close>

lemma iteration_Success_iff:
  "iteration rates tk d v = Exit Success d' v' \<longleftrightarrow>
     d' = d \<and> serial d \<noteq> None \<and> truthy (rx tk) \<and>
     classify d (rx tk) (arm tk v) = Inr v' \<and> buffer_write (rx tk) = Inr () \<and> success d v'"
  by (auto simp: iteration_def read_phase_def Let_def
      split: option.splits sum.splits if_splits flow.splits prod.splits)

lemma keypresses_idle: "\<not> thread d \<Longrightarrow> keypresses rates ks d = d"
  by (simp add: keypresses_def)

section \<open>Timeouts\<close>

lemma rate_phase_manual: "\<not> autoDetect d \<Longrightarrow> rate_phase rates d v = Inr (d, v)"
  by (simp add: rate_phase_def)

lemma rate_phase_auto:
  assumes "numeric rates" and "rates \<noteq> []" and "serial d = Some s"
    and "autoDetect d" and "timedOut v"
  shows "\<exists>d'. nextBaudrate rates (- 1) d = Inr d' \<and>
           rate_phase rates d v =
             Inr (d', v\<lparr>startTime := 0, clearCounters := True, timedOut := False\<rparr>)"
  using nextBaudrate_ok[OF assms(1,2,3), of "- 1"] assms(4,5)
  by (auto simp: rate_phase_def)

lemma read_phase_empty:
  "serial d = Some s \<Longrightarrow> rx tk = PyBytes [] \<Longrightarrow>
   read_phase d tk v = Next ((arm tk v)\<lparr>timedOut := True\<rparr>)"
  by (simp add: read_phase_def truthy_def)

lemma success_flags [simp]:
  "success d (v\<lparr>clearCounters := c\<rparr>) = success d v"
  "success d (v\<lparr>timedOut := t\<rparr>) = success d v"
  "success d (v\<lparr>startTime := t'\<rparr>) = success d v"
  by (simp_all add: success_def)

lemma success_arm [simp]: "success d (arm tk v) = success d v"
  by (simp add: arm_def)

text \<open>A pass that reads a byte which is not counted: the three ways on from line 119.\<close>

lemma read_phase_unqualified:
  assumes "serial d = Some s" and "rx tk = PyBytes (w # ws)"
    and "classify d (rx tk) (arm tk v) = Inr ((arm tk v)\<lparr>clearCounters := True\<rparr>)"
  shows "read_phase d tk v =
     (if success d v then Break ((arm tk v)\<lparr>clearCounters := True\<rparr>)
      else if now_chk tk - startTime (arm tk v) \<ge> real_of_int (timeout d)
      then Next ((arm tk v)\<lparr>clearCounters := True, timedOut := True\<rparr>)
      else Next ((arm tk v)\<lparr>clearCounters := True\<rparr>))"
  using assms by (simp add: read_phase_def truthy_def buffer_write_def)

text \<open>
  Claim C3. In auto-detect mode (list of decimal literals, index in range, port open,
  the read returning a \<^verbatim>\<open>bytes\<close> object), a pass whose read returns no byte, or
  which does not leave by the success exit and finds at line 121 that the time since the
  timer was set has reached the timeout, sets the timer back to unset (0), calls
  \<^verbatim>\<open>nextBaudrate(-1)\<close> once, which returns with the index one lower or wrapped to the
  last, and ends with the four counters at 0. The pass then goes on, or leaves by the
  check of line 139.
\<close>

theorem timeout_steps_back:
  assumes "autoDetect d" and "numeric rates"
    and "0 \<le> index d" and "index d < int (length rates)"
    and "serial d = Some s" and "validCharacters d = map chr [32..<127]"
    and "rx tk = PyBytes b"
    and "b = [] \<or> (\<not> success d v \<and> now_chk tk - startTime (arm tk v) \<ge> real_of_int (timeout d))"
  shows "\<exists>d' v'. (iteration rates tk d v = Continue d' v' \<or>
                  iteration rates tk d v = Exit Cancelled d' v') \<and>
           nextBaudrate rates (- 1) d = Inr d' \<and>
           index d' = (if index d = 0 then int (length rates) - 1 else index d - 1) \<and>
           startTime v' = 0 \<and>
           count v' = 0 \<and> whitespace v' = 0 \<and> punctuation v' = 0 \<and> vowels v' = 0"
proof -
  from assms(3,4) have ne: "rates \<noteq> []" by auto
  have "\<exists>v1. read_phase d tk v = Next v1 \<and> timedOut v1"
  proof (cases b)
    case Nil
    with assms(5,7) show ?thesis by (simp add: read_phase_empty)
  next
    case (Cons w ws)
    with assms(8) have c: "\<not> success d v"
      "now_chk tk - startTime (arm tk v) \<ge> real_of_int (timeout d)" by auto
    have "classify d (rx tk) (arm tk v) = Inr ((arm tk v)\<lparr>clearCounters := True\<rparr>)"
      unfolding assms(7) by (rule classify_bytes[OF assms(6)])
    from read_phase_unqualified[OF assms(5) _ this, of w ws] assms(7) Cons c
    show ?thesis by simp
  qed
  then obtain v1 where r: "read_phase d tk v = Next v1" and t: "timedOut v1" by blast
  from rate_phase_auto[OF assms(2) ne assms(5,1) t]
  obtain d' where n: "nextBaudrate rates (- 1) d = Inr d'"
    and p: "rate_phase rates d v1 =
              Inr (d', v1\<lparr>startTime := 0, clearCounters := True, timedOut := False\<rparr>)"
    by blast
  from nextBaudrate_ok[OF assms(2) ne assms(5), of "- 1"] n assms(3,4)
  have i: "index d' = (if index d = 0 then int (length rates) - 1 else index d - 1)"
    by auto
  let ?v = "clear_phase (v1\<lparr>startTime := 0, clearCounters := True, timedOut := False\<rparr>)"
  have "iteration rates tk d v = Continue d' ?v \<or> iteration rates tk d v = Exit Cancelled d' ?v"
    using r p by (simp add: iteration_def)
  moreover have "startTime ?v = 0 \<and> count ?v = 0 \<and> whitespace ?v = 0 \<and> punctuation ?v = 0
      \<and> vowels ?v = 0"
    by (simp add: clear_phase_def)
  ultimately show ?thesis using n i by blast
qed

text \<open>The first pass of the default auto-detect run, its read timing out: index 0 to 44.\<close>

theorem timeout_steps_back_witness:
  "\<exists>d' v'. (iteration BAUDRATES idle auto_detector start = Continue d' v' \<or>
            iteration BAUDRATES idle auto_detector start = Exit Cancelled d' v') \<and>
     nextBaudrate BAUDRATES (- 1) auto_detector = Inr d' \<and> index d' = 44 \<and> startTime v' = 0 \<and>
     count v' = 0 \<and> whitespace v' = 0 \<and> punctuation v' = 0 \<and> vowels v' = 0"
proof -
  have "0 \<le> index auto_detector" "index auto_detector < int (length BAUDRATES)"
    "[] = ([] :: 8 word list) \<or>
       (\<not> success auto_detector start \<and>
        now_chk idle - startTime (arm idle start) \<ge> real_of_int (timeout auto_detector))"
    by (simp_all add: auto_detector_fields length_BAUDRATES)
  from timeout_steps_back[OF auto_detector_fields(3) numeric_BAUDRATES this(1,2)
      auto_detector_fields(1,7) idle_fields(3) this(3)]
  show ?thesis
    by (simp add: auto_detector_fields(2) length_BAUDRATES)
qed

text \<open>
  Claim C6 fails as stated: in manual mode a pass whose read returns no byte reaches
  line 132 with the counters not marked for reset. Line 124 sets \<^verbatim>\<open>timedOut\<close> and
  nothing else, and the guard of line 126 keeps lines 127 to 130 for auto-detect mode.
\<close>

theorem manual_timeout_marks_nothing:
  "read_phase manual_detector idle start = Next (start\<lparr>startTime := 100, timedOut := True\<rparr>) \<and>
   rate_phase BAUDRATES manual_detector (start\<lparr>startTime := 100, timedOut := True\<rparr>)
     = Inr (manual_detector, start\<lparr>startTime := 100, timedOut := True\<rparr>) \<and>
   clearCounters (start\<lparr>startTime := 100, timedOut := True\<rparr>) = False"
  by (simp add: read_phase_def manual_detector_fields idle_fields truthy_def arm_def
      rate_phase_def start_def)

text \<open>
  Claim C6, amended. When auto-detect is disabled, a timeout (a read that returns no
  byte, or a pass that does not leave by the success exit and finds the time since the
  timer was set at or over the timeout) only sets the flag \<^verbatim>\<open>timedOut\<close>. With \<open>w\<close>
  the locals as the pass has them without the timeout (the timer armed; the counters
  marked for reset when a byte was read, by the byte), lines 99 to 124 end with \<open>w\<close> and
  the flag set, lines 126 to 130 change nothing, the pass ends with the object as it
  was (index, port and its baud rate) and the timer as armed.
\<close>

theorem manual_timeout_only_flags:
  assumes "\<not> autoDetect d" and "serial d = Some s" and "rx tk = PyBytes b"
    and "b = [] \<or> (\<not> success d v \<and> now_chk tk - startTime (arm tk v) \<ge> real_of_int (timeout d))"
    and "w = (if b = [] then arm tk v else (arm tk v)\<lparr>clearCounters := True\<rparr>)"
  shows "read_phase d tk v = Next (w\<lparr>timedOut := True\<rparr>) \<and>
         rate_phase rates d (w\<lparr>timedOut := True\<rparr>) = Inr (d, w\<lparr>timedOut := True\<rparr>) \<and>
         iteration rates tk d v =
           (if ctlc d then Exit Cancelled d (clear_phase (w\<lparr>timedOut := True\<rparr>))
            else Continue d (clear_phase (w\<lparr>timedOut := True\<rparr>))) \<and>
         startTime (clear_phase (w\<lparr>timedOut := True\<rparr>)) = startTime (arm tk v)"
proof -
  have r: "read_phase d tk v = Next (w\<lparr>timedOut := True\<rparr>)"
  proof (cases b)
    case Nil
    with assms(2,3,5) show ?thesis by (simp add: read_phase_empty)
  next
    case (Cons x xs)
    with assms(4) have c: "\<not> success d v"
      "now_chk tk - startTime (arm tk v) \<ge> real_of_int (timeout d)" by auto
    have "classify d (rx tk) (arm tk v) = Inr ((arm tk v)\<lparr>clearCounters := True\<rparr>)"
      by (rule classify_manual[OF assms(1)])
    from read_phase_unqualified[OF assms(2) _ this, of x xs] assms(3,5) Cons c
    show ?thesis by simp
  qed
  have p: "rate_phase rates d (w\<lparr>timedOut := True\<rparr>) = Inr (d, w\<lparr>timedOut := True\<rparr>)"
    by (rule rate_phase_manual[OF assms(1)])
  have "startTime (clear_phase (w\<lparr>timedOut := True\<rparr>)) = startTime (arm tk v)"
    using assms(5) by (simp add: clear_phase_def)
  with r p show ?thesis by (simp add: iteration_def)
qed

text \<open>The first pass of the default manual run, its read timing out.\<close>

theorem manual_timeout_only_flags_witness:
  "iteration BAUDRATES idle manual_detector start
     = Continue manual_detector (start\<lparr>startTime := 100, timedOut := True\<rparr>)"
proof -
  have h: "[] = ([] :: 8 word list) \<or>
       (\<not> success manual_detector start \<and>
        now_chk idle - startTime (arm idle start) \<ge> real_of_int (timeout manual_detector))"
      "arm idle start = (if ([] :: 8 word list) = [] then arm idle start
          else (arm idle start)\<lparr>clearCounters := True\<rparr>)"
    by simp_all
  from manual_timeout_only_flags[OF manual_detector_fields(3,1) idle_fields(3) h,
      of BAUDRATES]
  show ?thesis
    by (simp add: manual_detector_fields(4) arm_def idle_fields clear_phase_def start_def)
qed

section \<open>The termination signal\<close>

lemma nextBaudrate_ctlc: "nextBaudrate rates u d = Inr d' \<Longrightarrow> ctlc d' = ctlc d"
  by (auto simp: nextBaudrate_def Let_def split: option.splits sum.splits)

lemma rate_phase_ctlc: "rate_phase rates d v = Inr (d', v') \<Longrightarrow> ctlc d' = ctlc d"
  by (auto simp: rate_phase_def nextBaudrate_ctlc split: if_splits sum.splits)

lemma handleKeypress_ctlc: "ctlc d \<Longrightarrow> handleKeypress rates ks d = Inr d"
  by (cases ks) simp_all

lemma keypresses_ctlc: "ctlc d \<Longrightarrow> ctlc (keypresses rates ks d)"
  by (simp add: keypresses_def handleKeypress_ctlc)

text \<open>With the signal set, a pass does not go on to another pass.\<close>

lemma iteration_ctlc:
  assumes "ctlc d"
  shows "(\<exists>e. iteration rates tk d v = Raised e) \<or>
         (\<exists>k d' v'. iteration rates tk d v = Exit k d' v' \<and> ctlc d')"
proof (cases "read_phase d tk v")
  case (Next v1)
  show ?thesis
  proof (cases "rate_phase rates d v1")
    case (Inl e)
    with Next show ?thesis by (simp add: iteration_def)
  next
    case (Inr p)
    obtain d' v2 where p: "p = (d', v2)" by (cases p)
    with Inr have "ctlc d'" using assms rate_phase_ctlc by blast
    with Next Inr p show ?thesis by (simp add: iteration_def)
  qed
next
  case (Break v1)
  with assms show ?thesis by (simp add: iteration_def)
next
  case (Raise e)
  then show ?thesis by (simp add: iteration_def)
qed

lemma press_u:
  "handleKey BAUDRATES [117] (manual_detector\<lparr>thread := True\<rparr>)
     = Inr (manual_detector\<lparr>thread := True, index := 1,
              serial := Some \<lparr>baudrate = 150, flushes = 2\<rparr>\<rparr>)"
  by (simp add: handleKey_def lit_def sublist_single nextBaudrate_def manual_detector_fields
      length_BAUDRATES subscript_def)
    (simp add: BAUDRATES_def py_int_def is_digit_def)

text \<open>
  Claim C5 fails as stated: in the default manual run the operator types \<^verbatim>\<open>u\<close> and
  then Ctrl-C; the loop leaves at line 140 and \<^verbatim>\<open>detectBaudrate\<close> returns the rate
  \<^verbatim>\<open>150\<close>, the very kind of value it returns after the success exit (\<^verbatim>\<open>main\<close>
  prints it as the detected rate).
\<close>

theorem cancel_returns_rate:
  "detectBaudrate BAUDRATES [typed] manual_detector = Some (Inr ''150'')"
proof -
  define d2 where "d2 = manual_detector\<lparr>index := 1,
      serial := Some \<lparr>baudrate = 150, flushes = 2\<rparr>, ctlc := True, thread := False\<rparr>"
  have f: "serial d2 = Some \<lparr>baudrate = 150, flushes = 2\<rparr>" "\<not> autoDetect d2" "ctlc d2"
    "index d2 = 1"
    by (simp_all add: d2_def manual_detector_fields(3))
  have k: "keypresses BAUDRATES (keys typed) (manual_detector\<lparr>thread := True\<rparr>) = d2"
    by (simp add: keypresses_def typed_fields press_u manual_detector_fields(4) d2_def)
      (simp add: handleKey_def lit_def sublist_single)
  have "iteration BAUDRATES typed d2 start
          = Exit Cancelled d2 (clear_phase ((arm typed start)\<lparr>timedOut := True\<rparr>))"
    by (simp add: iteration_def read_phase_empty[OF f(1) typed_fields(3)]
        rate_phase_manual[OF f(2)] f(3))
  then have "detect BAUDRATES [typed] (manual_detector\<lparr>thread := True\<rparr>) start
          = Exit Cancelled d2 (clear_phase ((arm typed start)\<lparr>timedOut := True\<rparr>))"
    by (simp add: k)
  then show ?thesis
    by (simp add: detectBaudrate_def manual_detector_fields(3) f(4) subscript_def BAUDRATES_def)
qed

text \<open>
  Claim C5, amended. Whenever the termination signal is set when a pass begins, the loop
  ends in that pass, whatever input follows: the pass raises, or it leaves the loop with
  the signal still set, and \<^verbatim>\<open>detectBaudrate\<close> then returns \<^verbatim>\<open>BAUDRATES[index]\<close>
  for the index of that moment, as it does after the success exit. The value returned
  does not tell the two exits apart.
\<close>

theorem termination_signal_exits:
  assumes "ctlc d"
  shows "detect rates (tk # tks) d v = detect rates [tk] d v \<and>
         ((\<exists>e. detect rates [tk] d v = Raised e) \<or>
          (\<exists>k d' v'. detect rates [tk] d v = Exit k d' v' \<and> ctlc d' \<and>
             returned rates (Exit k d' v') = Some (subscript rates (index d'))))"
  using iteration_ctlc[OF keypresses_ctlc[OF assms, of rates "keys tk"], of rates tk v]
  by auto

text \<open>
  The default manual detector with the signal set, and two passes of input: the loop
  leaves in the first, at line 140, and the call returns the rate at index 0.
\<close>

theorem termination_signal_exits_witness:
  "detect BAUDRATES [idle, idle] (manual_detector\<lparr>ctlc := True\<rparr>) start
     = Exit Cancelled (manual_detector\<lparr>ctlc := True\<rparr>)
         (start\<lparr>startTime := 100, timedOut := True\<rparr>) \<and>
   returned BAUDRATES
       (Exit Cancelled (manual_detector\<lparr>ctlc := True\<rparr>)
         (start\<lparr>startTime := 100, timedOut := True\<rparr>))
     = Some (Inr ''110'')"
proof -
  let ?d = "manual_detector\<lparr>ctlc := True\<rparr>"
  have f: "ctlc ?d" "\<not> autoDetect ?d" "\<not> thread ?d"
    "serial ?d = Some \<lparr>baudrate = 9600, flushes = 0\<rparr>" "index ?d = 0"
    by (simp_all add: manual_detector_fields manual_detector_rest)
  have "iteration BAUDRATES idle ?d start
          = Exit Cancelled ?d (clear_phase ((arm idle start)\<lparr>timedOut := True\<rparr>))"
    by (simp only: iteration_def read_phase_empty[OF f(4) idle_fields(3)]
        rate_phase_manual[OF f(2)] f(1)) simp
  then have one: "detect BAUDRATES [idle] ?d start
          = Exit Cancelled ?d (start\<lparr>startTime := 100, timedOut := True\<rparr>)"
    by (simp add: keypresses_idle[OF f(3)] arm_def idle_fields clear_phase_def start_def)
  from termination_signal_exits[OF f(1), of BAUDRATES idle "[idle]" start] one
  have "detect BAUDRATES [idle, idle] ?d start
          = Exit Cancelled ?d (start\<lparr>startTime := 100, timedOut := True\<rparr>)"
    by simp
  then show ?thesis
    by (simp add: f(5) subscript_def BAUDRATES_def)
qed

section \<open>Runs on the bytes the port delivers\<close>

text \<open>
  What the comparison of line 105 means for whole runs. The list of valid characters is
  never changed after the constructor; when every read returns a \<^verbatim>\<open>bytes\<close> object,
  the counters stay at 0 from pass to pass, and no run of \<^verbatim>\<open>detectBaudrate\<close> leaves
  by the success exit, whatever the bytes are.
\<close>

lemma nextBaudrate_chars:
  "nextBaudrate rates u d = Inr d' \<Longrightarrow> validCharacters d' = validCharacters d"
  "nextBaudrate rates u d = Inl (e, d') \<Longrightarrow> validCharacters d' = validCharacters d"
  by (auto simp: nextBaudrate_def Let_def split: option.splits sum.splits)

lemma handleKey_chars:
  "handleKey rates c d = Inr d' \<Longrightarrow> validCharacters d' = validCharacters d"
  "handleKey rates c d = Inl (e, d') \<Longrightarrow> validCharacters d' = validCharacters d"
  by (auto simp: handleKey_def nextBaudrate_chars split: if_splits)

lemma handleKeypress_chars:
  "(handleKeypress rates ks d = Inr d' \<longrightarrow> validCharacters d' = validCharacters d) \<and>
   (handleKeypress rates ks d = Inl (e, d') \<longrightarrow> validCharacters d' = validCharacters d)"
proof (induction ks arbitrary: d)
  case Nil
  then show ?case by simp
next
  case (Cons c cs)
  show ?case
  proof (cases "ctlc d")
    case True
    then show ?thesis by simp
  next
    case False
    show ?thesis
    proof (cases "handleKey rates c d")
      case (Inl x)
      with False handleKey_chars(2)[of rates c d "fst x" "snd x"] show ?thesis by auto
    next
      case (Inr d1)
      with False handleKey_chars(1)[of rates c d d1] Cons.IH[of d1] show ?thesis by auto
    qed
  qed
qed

lemma keypresses_chars: "validCharacters (keypresses rates ks d) = validCharacters d"
proof (cases "handleKeypress rates ks d")
  case (Inl x)
  with handleKeypress_chars[of rates ks d "snd x" "fst x"] show ?thesis
    by (simp add: keypresses_def)
next
  case (Inr d1)
  with handleKeypress_chars[of rates ks d d1] show ?thesis
    by (simp add: keypresses_def)
qed

lemma rate_phase_chars:
  "rate_phase rates d v = Inr (d', v') \<Longrightarrow> validCharacters d' = validCharacters d"
  by (auto simp: rate_phase_def nextBaudrate_chars split: if_splits sum.splits)

lemma rate_phase_zeroed:
  "rate_phase rates d v = Inr (d', v') \<Longrightarrow> zeroed v \<Longrightarrow> zeroed v'"
  by (auto simp: rate_phase_def zeroed_def split: if_splits sum.splits)

lemma zeroed_not_success: "zeroed v \<Longrightarrow> \<not> success d v"
  by (simp add: zeroed_def success_def)

lemma iteration_bytes:
  assumes "validCharacters d = map chr cs" and "is_bytes (rx tk)" and "zeroed v"
  shows "iteration rates tk d v \<noteq> Exit Success d' v' \<and>
         (iteration rates tk d v = Continue d' v' \<longrightarrow>
            zeroed v' \<and> validCharacters d' = map chr cs)"
proof -
  from assms(2) obtain b where b: "rx tk = PyBytes b"
    by (cases "rx tk") (simp_all add: is_bytes_def)
  have c: "classify d (rx tk) (arm tk v) = Inr ((arm tk v)\<lparr>clearCounters := True\<rparr>)"
    unfolding b by (rule classify_bytes[OF assms(1)])
  have z: "zeroed (arm tk v)" using assms(3) by (simp add: zeroed_def arm_def)
  have "\<not> success d ((arm tk v)\<lparr>clearCounters := True\<rparr>)"
    using zeroed_not_success[OF assms(3)] by simp
  with c have 1: "iteration rates tk d v \<noteq> Exit Success d' v'"
    by (auto simp: iteration_Success_iff)
  have 2: "zeroed v' \<and> validCharacters d' = map chr cs"
    if it: "iteration rates tk d v = Continue d' v'"
  proof -
    from it obtain v1 v2 where r: "read_phase d tk v = Next v1"
      and p: "rate_phase rates d v1 = Inr (d', v2)" and v': "v' = clear_phase v2"
      by (auto simp: iteration_def split: flow.splits sum.splits prod.splits if_splits)
    from r c z have "zeroed v1"
      by (auto simp: read_phase_def Let_def zeroed_def split: option.splits sum.splits if_splits)
    from rate_phase_zeroed[OF p this] v' have "zeroed v'"
      by (simp add: clear_phase_def zeroed_def)
    with rate_phase_chars[OF p] assms(1) show ?thesis by simp
  qed
  from 1 2 show ?thesis by blast
qed

lemma detect_bytes:
  "validCharacters d = map chr cs \<Longrightarrow> list_all (\<lambda>tk. is_bytes (rx tk)) tks \<Longrightarrow> zeroed v \<Longrightarrow>
   detect rates tks d v \<noteq> Exit Success d' v'"
proof (induction tks arbitrary: d v)
  case Nil
  then show ?case by simp
next
  case (Cons tk tks)
  let ?d = "keypresses rates (keys tk) d"
  have ch: "validCharacters ?d = map chr cs"
    using Cons.prems(1) by (simp add: keypresses_chars)
  from Cons.prems(2) have b: "is_bytes (rx tk)" and bs: "list_all (\<lambda>tk. is_bytes (rx tk)) tks"
    by simp_all
  show ?case
  proof (cases "iteration rates tk ?d v")
    case (Continue d2 v2)
    with iteration_bytes[OF ch b Cons.prems(3), of rates d2 v2]
    have "zeroed v2" "validCharacters d2 = map chr cs" by simp_all
    from Cons.IH[OF this(2) bs this(1)] Continue show ?thesis by simp
  next
    case (Exit k d2 v2)
    with iteration_bytes[OF ch b Cons.prems(3), of rates d' v'] show ?thesis by auto
  next
    case (Raised e)
    then show ?thesis by simp
  qed
qed

lemma start_zeroed: "zeroed start"
  by (simp add: zeroed_def start_def)

lemma no_success_on_bytes:
  assumes "validCharacters d = map chr [32..<127]" and "list_all (\<lambda>tk. is_bytes (rx tk)) tks"
  shows "detect rates tks (if autoDetect d then d else d\<lparr>thread := True\<rparr>) start
           \<noteq> Exit Success d' v'"
proof -
  have "validCharacters (if autoDetect d then d else d\<lparr>thread := True\<rparr>) = map chr [32..<127]"
    using assms(1) by (simp del: upt_rec_numeral)
  from detect_bytes[OF this assms(2) start_zeroed] show ?thesis .
qed

lemma at_100_fields:
  "keys (at_100 w) = []" "now_top (at_100 w) = 100" "rx (at_100 w) = PyBytes [w]"
  "now_chk (at_100 w) = 100"
  by (simp_all add: at_100_def)

text \<open>
  A pass of the default auto-detect run that reads a byte at clock 100, from the initial
  locals or from the locals such a pass leaves: the byte is not counted, the counters are
  reset, and the loop goes on with nothing but the timer set.
\<close>

lemma pass_at_100:
  assumes "v = start \<or> v = armed"
  shows "iteration BAUDRATES (at_100 w) auto_detector v = Continue auto_detector armed"
proof -
  have a: "arm (at_100 w) v = armed"
    using assms by (auto simp: arm_def armed_def start_def at_100_fields)
  have c: "classify auto_detector (rx (at_100 w)) (arm (at_100 w) v)
             = Inr ((arm (at_100 w) v)\<lparr>clearCounters := True\<rparr>)"
    unfolding at_100_fields by (rule classify_bytes[OF auto_detector_fields(7)])
  have s: "\<not> success auto_detector v"
    using assms by (auto simp: success_def armed_def start_def)
  have r: "read_phase auto_detector (at_100 w) v = Next (armed\<lparr>clearCounters := True\<rparr>)"
    using read_phase_unqualified[OF auto_detector_fields(1) at_100_fields(3) c] s
    by (simp add: a at_100_fields auto_detector_fields(6) armed_def start_def)
  show ?thesis
    unfolding iteration_def r
    by (simp add: rate_phase_def clear_phase_def armed_def start_def auto_detector_fields(4))
qed

lemma run_at_100:
  "v = start \<or> v = armed \<Longrightarrow>
   detect BAUDRATES (map at_100 ws) auto_detector v
     = Continue auto_detector (if ws = [] then v else armed)"
proof (induction ws arbitrary: v)
  case Nil
  then show ?case by simp
next
  case (Cons w ws)
  have k: "keypresses BAUDRATES (keys (at_100 w)) auto_detector = auto_detector"
    by (rule keypresses_idle[OF auto_detector_rest(1)])
  from Cons.IH[of armed] have "detect BAUDRATES (map at_100 ws) auto_detector armed
      = Continue auto_detector armed" by simp
  with pass_at_100[OF Cons.prems, of w] k show ?case by simp
qed

lemma hello_bytes: "hello = map at_100 (map of_char ''Hello, world! Testing 123.'')"
  by (simp add: hello_def)

text \<open>
  Claim C1, at the input where the code leaves it. The default auto-detect run
  (threshold 25, timeout 5) is fed the 26 bytes of \<^verbatim>\<open>Hello, world! Testing 123.\<close>
  within the timeout window: every byte is in 32 to 126, the count of such bytes reaches
  the threshold, and blanks, punctuation and vowels are among them, so the claim's four
  conditions hold on reading the 25th byte. The loop does not leave by the success exit:
  after the last byte it is still running, with the index where it was and all counters
  at 0, and \<^verbatim>\<open>detectBaudrate\<close> has returned nothing. No byte was counted, by the
  comparison of line 105 (claim C2).
\<close>

theorem qualifying_stream_no_success:
  "int (length hello) \<ge> threshold auto_detector \<and>
   list_all (\<lambda>tk. printable (rx tk)) hello \<and>
   list_ex (\<lambda>tk. rx tk = PyBytes [0x20]) hello \<and>
   list_ex (\<lambda>tk. rx tk = PyBytes [0x2C]) hello \<and>
   list_ex (\<lambda>tk. rx tk = PyBytes [0x65]) hello \<and>
   detect BAUDRATES hello auto_detector start = Continue auto_detector armed \<and>
   detectBaudrate BAUDRATES hello auto_detector = None"
proof -
  have d: "detect BAUDRATES hello auto_detector start = Continue auto_detector armed"
    unfolding hello_bytes using run_at_100[of start "map of_char ''Hello, world! Testing 123.''"]
    by simp
  have "int (length hello) \<ge> threshold auto_detector"
    by (simp add: hello_def auto_detector_fields(5))
  moreover have "list_all (\<lambda>tk. printable (rx tk)) hello"
    by (simp add: hello_def at_100_def printable_def)
  moreover have "list_ex (\<lambda>tk. rx tk = PyBytes [0x20]) hello"
    "list_ex (\<lambda>tk. rx tk = PyBytes [0x2C]) hello"
    "list_ex (\<lambda>tk. rx tk = PyBytes [0x65]) hello"
    by (simp_all add: hello_def at_100_def)
  moreover have "detectBaudrate BAUDRATES hello auto_detector = None"
    by (simp add: detectBaudrate_def auto_detector_fields(3) d)
  ultimately show ?thesis using d by simp
qed

section \<open>The counters\<close>

lemma consistent_start: "consistent start"
  by (simp add: consistent_def start_def)

lemma consistent_arm: "consistent v \<Longrightarrow> consistent (arm tk v)"
  by (simp add: consistent_def arm_def)

lemma consistent_classify: "consistent v \<Longrightarrow> classify d byte v = Inr v' \<Longrightarrow> consistent v'"
  by (auto simp: classify_def consistent_def split: if_splits sum.splits bool.splits)

lemma consistent_read_phase:
  assumes "consistent v" and "read_phase d tk v = Next v' \<or> read_phase d tk v = Break v'"
  shows "consistent v'"
proof (cases "truthy (rx tk)")
  case True
  with assms(2) obtain v2 where c: "classify d (rx tk) (arm tk v) = Inr v2"
    and v': "v' = v2 \<or> v' = v2\<lparr>timedOut := True\<rparr>"
    by (auto simp: read_phase_def Let_def split: option.splits sum.splits if_splits)
  from consistent_classify[OF consistent_arm[OF assms(1)] c] have "consistent v2" .
  with v' show ?thesis by (auto simp: consistent_def)
next
  case False
  with assms(2) have "v' = (arm tk v)\<lparr>timedOut := True\<rparr>"
    by (auto simp: read_phase_def Let_def split: option.splits)
  with consistent_arm[OF assms(1), of tk] show ?thesis by (simp add: consistent_def)
qed

lemma consistent_rate_phase:
  "consistent v \<Longrightarrow> rate_phase rates d v = Inr (d', v') \<Longrightarrow> consistent v'"
  by (auto simp: rate_phase_def consistent_def split: if_splits sum.splits)

lemma consistent_clear_phase: "consistent v \<Longrightarrow> consistent (clear_phase v)"
  by (simp add: clear_phase_def consistent_def)

lemma clear_phase_zero:
  "clearCounters v \<Longrightarrow>
   count (clear_phase v) = 0 \<and> whitespace (clear_phase v) = 0 \<and>
   punctuation (clear_phase v) = 0 \<and> vowels (clear_phase v) = 0"
  by (simp add: clear_phase_def)

lemma consistent_iteration:
  assumes "consistent v"
    and "iteration rates tk d v = Continue d' v' \<or> (\<exists>k. iteration rates tk d v = Exit k d' v')"
  shows "consistent v'"
proof (cases "read_phase d tk v")
  case (Next v1)
  with assms(1) have c1: "consistent v1" using consistent_read_phase by blast
  from assms(2) Next obtain v2 where p: "rate_phase rates d v1 = Inr (d', v2)"
    and v': "v' = clear_phase v2"
    by (auto simp: iteration_def split: sum.splits prod.splits if_splits)
  from consistent_rate_phase[OF c1 p] have "consistent v2" .
  with v' show ?thesis by (simp add: consistent_clear_phase)
next
  case (Break v1)
  with assms(1) have "consistent v1" using consistent_read_phase by blast
  moreover from assms(2) Break have "v' = v1" by (auto simp: iteration_def)
  ultimately show ?thesis by simp
next
  case (Raise e)
  with assms(2) show ?thesis by (auto simp: iteration_def)
qed

lemma consistent_detect:
  "consistent v \<Longrightarrow>
   detect rates tks d v = Continue d' v' \<or> (\<exists>k. detect rates tks d v = Exit k d' v') \<Longrightarrow>
   consistent v'"
proof (induction tks arbitrary: d v)
  case Nil
  then show ?case by simp
next
  case (Cons tk tks)
  show ?case
  proof (cases "iteration rates tk (keypresses rates (keys tk) d) v")
    case (Continue d2 v2)
    with Cons.prems(1) have "consistent v2" using consistent_iteration by blast
    moreover from Cons.prems(2) Continue
    have "detect rates tks d2 v2 = Continue d' v' \<or> (\<exists>k. detect rates tks d2 v2 = Exit k d' v')"
      by simp
    ultimately show ?thesis by (rule Cons.IH)
  next
    case (Exit k d2 v2)
    with Cons.prems(2) have "iteration rates tk (keypresses rates (keys tk) d) v = Exit k d' v'"
      by auto
    with Cons.prems(1) show ?thesis using consistent_iteration by blast
  next
    case (Raised e)
    with Cons.prems(2) show ?thesis by simp
  qed
qed

text \<open>
  Claim C9. The counters are consistent (none negative, no sub-tag counter above the
  total) when the loop starts; each part of a pass keeps them so: arming the timer,
  classifying a byte, lines 99 to 124 as a whole, lines 126 to 130, the reset of lines
  132 to 137; a reset that was marked sets all four to 0 together; and so they are
  consistent wherever a run of the loop from its start stands or leaves.
\<close>

theorem counters_consistent:
  "consistent start \<and>
   (consistent v \<longrightarrow>
      consistent (arm tk v) \<and>
      (\<forall>v'. classify d byte v = Inr v' \<longrightarrow> consistent v') \<and>
      (\<forall>v'. read_phase d tk v = Next v' \<or> read_phase d tk v = Break v' \<longrightarrow> consistent v') \<and>
      (\<forall>d' v'. rate_phase rates d v = Inr (d', v') \<longrightarrow> consistent v') \<and>
      consistent (clear_phase v)) \<and>
   (clearCounters v \<longrightarrow>
      count (clear_phase v) = 0 \<and> whitespace (clear_phase v) = 0 \<and>
      punctuation (clear_phase v) = 0 \<and> vowels (clear_phase v) = 0) \<and>
   (\<forall>d' v'. detect rates tks d start = Continue d' v' \<or>
             (\<exists>k. detect rates tks d start = Exit k d' v') \<longrightarrow> consistent v')"
proof (intro conjI impI allI)
  show "consistent start" by (rule consistent_start)
next
  assume "consistent v"
  then show "consistent (arm tk v)" by (rule consistent_arm)
next
  fix v'
  assume "consistent v" and "classify d byte v = Inr v'"
  then show "consistent v'" by (rule consistent_classify)
next
  fix v'
  assume "consistent v" and "read_phase d tk v = Next v' \<or> read_phase d tk v = Break v'"
  then show "consistent v'" by (rule consistent_read_phase)
next
  fix d' v'
  assume "consistent v" and "rate_phase rates d v = Inr (d', v')"
  then show "consistent v'" by (rule consistent_rate_phase)
next
  assume "consistent v"
  then show "consistent (clear_phase v)" by (rule consistent_clear_phase)
next
  assume c: "clearCounters v"
  from clear_phase_zero[OF c] show "count (clear_phase v) = 0" by simp
  from clear_phase_zero[OF c] show "whitespace (clear_phase v) = 0" by simp
  from clear_phase_zero[OF c] show "punctuation (clear_phase v) = 0" by simp
  from clear_phase_zero[OF c] show "vowels (clear_phase v) = 0" by simp
next
  fix d' v'
  assume "detect rates tks d start = Continue d' v' \<or>
          (\<exists>k. detect rates tks d start = Exit k d' v')"
  with consistent_start show "consistent v'" by (rule consistent_detect)
qed

text \<open>
  Counters 7, 1, 0 and 2, marked for reset: consistent, still so after a vowel is
  counted on top, and all 0 after the reset.
\<close>

theorem counters_consistent_witness:
  "consistent seen \<and>
   consistent (seen\<lparr>vowels := vowels seen + 1, count := count seen + 1\<rparr>) \<and>
   clearCounters seen \<and>
   count (clear_phase seen) = 0 \<and> whitespace (clear_phase seen) = 0 \<and>
   punctuation (clear_phase seen) = 0 \<and> vowels (clear_phase seen) = 0"
proof -
  have c: "consistent seen" "clearCounters seen"
    by (simp_all add: consistent_def seen_def start_def)
  from counters_consistent[of seen idle auto_detector "PyStr [97]" BAUDRATES "[]"] c
    classify_auto_a[of seen]
  show ?thesis by simp
qed

section \<open>Writing the configuration file\<close>

text \<open>
  Claim C10. For every detector whose index is in range: when the configuration name is
  absent (\<^verbatim>\<open>None\<close>, or the empty string), \<^verbatim>\<open>minicomConfig\<close> returns
  \<^verbatim>\<open>(False, "Configuration name not provided.")\<close> and attempts no write; and whenever
  it attempts a write, a name is present and the one write is that of the configuration
  text to \<^verbatim>\<open>/etc/minicom/minirc.\<close> followed by the name.
\<close>

theorem config_needs_name:
  assumes "0 \<le> index d" and "index d < int (length rates)"
  shows "(name d = None \<or> name d = Some [] \<longrightarrow>
            minicomConfig rates fs d = Inr ((False, ''Configuration name not provided.''), [])) \<and>
         (\<forall>r ws. minicomConfig rates fs d = Inr (r, ws) \<and> ws \<noteq> [] \<longrightarrow>
            (\<exists>n. name d = Some n \<and> n \<noteq> [] \<and>
                 ws = [(''/etc/minicom/minirc.'' @ n,
                        config_text (port d) (rates ! nat (index d)))]))"
  using subscript_in_range[OF assms]
  by (auto simp: minicomConfig_def Let_def split: option.splits)

text \<open>The default detector of \<^verbatim>\<open>main\<close> has no name.\<close>

theorem config_needs_name_witness:
  "minicomConfig BAUDRATES (\<lambda>p c. None) auto_detector
     = Inr ((False, ''Configuration name not provided.''), [])"
proof -
  have "0 \<le> index auto_detector" "index auto_detector < int (length BAUDRATES)"
    by (simp_all add: auto_detector_fields length_BAUDRATES)
  from config_needs_name[OF this, of "\<lambda>p c. None"] show ?thesis
    by (simp add: auto_detector_rest(2))
qed

end
